theory Spec2Isabelle
  imports Complex_Main "HOL-Library.AList" "HOL-Library.Multiset"
begin

section \<open>Python values used by the notebook\<close>

text \<open>
  The notebook \<^verbatim>\<open>distance_matching.ipynb\<close> defines \<^verbatim>\<open>distance_matching\<close> and
  \<^verbatim>\<open>return_rate\<close>. Exceptions are modelled as values of \<open>py_error\<close>; a computation
  that may raise returns \<open>py_error + 'a\<close> with \<open>Inl\<close> for the exception. Floats are
  reals: the code only compares and divides them. The one place where their precision
  matters, the threshold test, takes the conversion that NumPy applies as a parameter.

  A Python \<^verbatim>\<open>dict\<close> is an association list in insertion order: \<^verbatim>\<open>d[k] = v\<close> replaces
  the value of an existing key in place and appends a new key at the end, which is what
  \<open>AList.update\<close> does; \<^verbatim>\<open>d.values()\<close> lists the values in that order.
\<close>

datatype py_error = KeyError | IndexError | UnboundLocalError | ZeroDivisionError

type_synonym post = string
type_synonym doc = "(nat \<times> real) list"
type_synonym ('k, 'v) dict = "('k \<times> 'v) list"

definition and_then :: "py_error + 'a \<Rightarrow> ('a \<Rightarrow> py_error + 'b) \<Rightarrow> py_error + 'b" where
  "and_then m f = (case m of Inl e \<Rightarrow> Inl e | Inr v \<Rightarrow> f v)"

definition getitem :: "('k, 'v) dict \<Rightarrow> 'k \<Rightarrow> py_error + 'v" where
  "getitem d k = (case map_of d k of None \<Rightarrow> Inl KeyError | Some v \<Rightarrow> Inr v)"

definition setitem :: "('k, 'v) dict \<Rightarrow> 'k \<Rightarrow> 'v \<Rightarrow> ('k, 'v) dict" where
  "setitem d k v = AList.update k v d"

definition contains :: "'k \<Rightarrow> ('k, 'v) dict \<Rightarrow> bool" where
  "contains k d = (k \<in> set (map fst d))"

definition values_of :: "('k, 'v) dict \<Rightarrow> 'v list" where
  "values_of d = map snd d"

definition list_getitem :: "'a list \<Rightarrow> nat \<Rightarrow> py_error + 'a" where
  "list_getitem xs i = (if i < length xs then Inr (xs ! i) else Inl IndexError)"

text \<open>A \<^verbatim>\<open>for\<close> loop over a list; an exception raised by the body leaves the loop.\<close>

fun for_each :: "('a \<Rightarrow> 's \<Rightarrow> py_error + 's) \<Rightarrow> 'a list \<Rightarrow> 's \<Rightarrow> py_error + 's" where
  "for_each body [] s = Inr s"
| "for_each body (x # xs) s =
     (case body x s of Inl e \<Rightarrow> Inl e | Inr s' \<Rightarrow> for_each body xs s')"

text \<open>
  \<^verbatim>\<open>sorted(xs, key = key, reverse = True)\<close>. Python's sort is stable also when reversed:
  CPython reverses the list, sorts it stably in ascending order and reverses it again.
\<close>

definition sorted_reverse :: "('a \<Rightarrow> 'k::linorder) \<Rightarrow> 'a list \<Rightarrow> 'a list" where
  "sorted_reverse key xs = rev (sort_key key (rev xs))"

text \<open>What the notebook prints, as data.\<close>

datatype line =
    Treatment_group nat
  | Control_group nat
  | Control_unmatched nat
  | Top5_header
  | Pair string string real
  | Prob_treatment real
  | Prob_control real
  | Relative_increase real

section \<open>The group split of \<^verbatim>\<open>distance_matching\<close>\<close>

record groups =
  treatment :: "doc list"
  treatmentToPost :: "(nat, post) dict"
  control :: "doc list"
  controlToPost :: "(nat, post) dict"
  countTreatment :: nat
  countControl :: nat

definition no_groups :: groups where
  "no_groups = \<lparr>treatment = [], treatmentToPost = [], control = [], controlToPost = [],
     countTreatment = 0, countControl = 0\<rparr>"

text \<open>
  The body of \<^verbatim>\<open>for x in range(0,size)\<close>, lines 157 to 166:
  \<^verbatim>\<open>if upvotes[docToPost[x]] == 0\<close> sends the unit to the control group, \<^verbatim>\<open>else\<close> to
  the treatment group. Both subscripts raise \<^verbatim>\<open>KeyError\<close> on a missing key.
\<close>

definition split_step ::
  "doc list \<Rightarrow> (nat, post) dict \<Rightarrow> (post, real) dict \<Rightarrow> nat \<Rightarrow> groups \<Rightarrow> py_error + groups" where
  "split_step docs docToPost upvotes x g =
     and_then (getitem docToPost x) (\<lambda>p.
     and_then (getitem upvotes p) (\<lambda>u.
       if u = 0 then
         Inr (g\<lparr>control := control g @ [docs ! x],
                controlToPost := setitem (controlToPost g) (countControl g) p,
                countControl := countControl g + 1\<rparr>)
       else
         Inr (g\<lparr>treatment := treatment g @ [docs ! x],
                treatmentToPost := setitem (treatmentToPost g) (countTreatment g) p,
                countTreatment := countTreatment g + 1\<rparr>)))"

definition split_groups ::
  "doc list \<Rightarrow> (nat, post) dict \<Rightarrow> (post, real) dict \<Rightarrow> py_error + groups" where
  "split_groups docs docToPost upvotes =
     for_each (split_step docs docToPost upvotes) [0..<length docs] no_groups"

section \<open>The matching loop\<close>

record matching_state =
  similarity :: "(post, post \<times> real) dict"
  similarity_return :: "(nat, post \<times> post) dict"
  ranking :: "(post, real) dict"
  matched :: "(post, nat) dict"
  countUnmatched :: nat
  matchedControl :: "post list"
  matchedTreament :: "post list"
  count_pairs :: nat

definition initial_state :: matching_state where
  "initial_state = \<lparr>similarity = [], similarity_return = [], ranking = [], matched = [],
     countUnmatched = 0, matchedControl = [], matchedTreament = [], count_pairs = 0\<rparr>"

text \<open>
  Line 201: \<^verbatim>\<open>closer = sorted(list(enumerate(sims)), key = itemgetter(1), reverse = True)\<close>.
\<close>

definition closer_of :: "real list \<Rightarrow> (nat \<times> real) list" where
  "closer_of sims = sorted_reverse snd (enumerate 0 sims)"

text \<open>
  Lines 206 and 207: \<^verbatim>\<open>while treatmentToPost[closer[y][0]] in matched: y+=1\<close>. The loop has
  no bound on \<open>y\<close>: \<^verbatim>\<open>closer[y]\<close> raises \<^verbatim>\<open>IndexError\<close> once \<open>y\<close> reaches the length of
  the list. The result is the value of \<open>y\<close> when the loop ends.
\<close>

function scan_claimed ::
  "(nat \<times> real) list \<Rightarrow> groups \<Rightarrow> matching_state \<Rightarrow> nat \<Rightarrow> py_error + nat" where
  "scan_claimed closer g st y =
     (if length closer \<le> y then Inl IndexError
      else case getitem (treatmentToPost g) (fst (closer ! y)) of
             Inl e \<Rightarrow> Inl e
           | Inr t \<Rightarrow> if contains t (matched st) then scan_claimed closer g st (y + 1)
                      else Inr y)"
  by pat_completeness auto
termination
  by (relation "measure (\<lambda>(closer, g, st, y). length closer - y)") auto

text \<open>
  The body of the matching loop, lines 198 to 219, for position \<open>x\<close> of the processing
  order. The local variables \<^verbatim>\<open>index\<close> and \<^verbatim>\<open>closer\<close> are bound only when
  \<^verbatim>\<open>distance == "cosine"\<close>; reading an unbound local raises \<^verbatim>\<open>UnboundLocalError\<close>.
  Since \<^verbatim>\<open>distance\<close> does not change, \<^verbatim>\<open>closer\<close> is either assigned afresh in every
  iteration or never.

  Line 210, \<^verbatim>\<open>closer[y][1]>=float(threshold)\<close>, compares a score of the index, a
  \<^verbatim>\<open>numpy.float32\<close>, with a Python float. NumPy first converts the Python float to the
  type in which it compares: with NumPy 2 this is \<^verbatim>\<open>float32\<close>, so the threshold is
  rounded to the nearest \<^verbatim>\<open>float32\<close>; with NumPy 1 the comparison is done in double
  precision and the threshold stays as it is. This conversion is the parameter
  \<open>promote\<close>; the recorded score is the score of the index, unchanged.
\<close>

definition read_local :: "'a option \<Rightarrow> py_error + 'a" where
  "read_local v = (case v of None \<Rightarrow> Inl UnboundLocalError | Some a \<Rightarrow> Inr a)"

definition match_step ::
  "(real \<Rightarrow> real) \<Rightarrow> (doc \<Rightarrow> real list) option \<Rightarrow> nat list \<Rightarrow> groups \<Rightarrow> real \<Rightarrow>
     bool \<Rightarrow> string option \<Rightarrow> nat \<Rightarrow> matching_state \<Rightarrow> py_error + matching_state" where
  "match_step promote index lookUpControl g threshold replacement distance x st =
     and_then
       (if distance = Some ''cosine'' then
          and_then (read_local index) (\<lambda>ix.
          and_then (list_getitem lookUpControl x) (\<lambda>i.
          and_then (list_getitem (control g) i) (\<lambda>c.
            Inr (Some (closer_of (ix c))))))
        else Inr None) (\<lambda>closer_var.
     and_then
       (if \<not> replacement then
          and_then (read_local closer_var) (\<lambda>closer. scan_claimed closer g st 0)
        else Inr 0) (\<lambda>y.
     and_then (read_local closer_var) (\<lambda>closer.
     and_then (list_getitem closer y) (\<lambda>cy.
       if snd cy \<ge> promote threshold then
         and_then (list_getitem lookUpControl x) (\<lambda>i.
         and_then (getitem (controlToPost g) i) (\<lambda>c.
         and_then (getitem (treatmentToPost g) (fst cy)) (\<lambda>t.
           Inr (st\<lparr>ranking := setitem (ranking st) c (snd cy),
                   similarity := setitem (similarity st) c (t, snd cy),
                   matched := setitem (matched st) t 1,
                   similarity_return := setitem (similarity_return st) (count_pairs st) (c, t),
                   matchedControl := matchedControl st @ [c],
                   matchedTreament := matchedTreament st @ [t],
                   count_pairs := count_pairs st + 1\<rparr>))))
       else Inr (st\<lparr>countUnmatched := countUnmatched st + 1\<rparr>)))))"

text \<open>
  Lines 176 to 219, from the groups to the state after the matching loop. Besides
  \<open>promote\<close>, two library calls are parameters:
  \<open>SparseMatrixSimilarity corpus num_features\<close> is gensim's index, a function from a query
  document to one score per document of the corpus, and \<open>sample population k\<close> is
  \<^verbatim>\<open>random.sample\<close>. \<^verbatim>\<open>treatment[0]\<close> raises \<^verbatim>\<open>IndexError\<close> when the treatment group is
  empty.
\<close>

definition matching_run ::
  "(real \<Rightarrow> real) \<Rightarrow> (doc list \<Rightarrow> nat \<Rightarrow> doc \<Rightarrow> real list) \<Rightarrow>
     (nat list \<Rightarrow> nat \<Rightarrow> nat list) \<Rightarrow> groups \<Rightarrow> real \<Rightarrow> bool \<Rightarrow> string option \<Rightarrow>
     py_error + matching_state" where
  "matching_run promote SparseMatrixSimilarity sample g threshold replacement distance =
     (let size = length (control g);
          lookUpControl = sample [0..<size] size
      in and_then
           (if distance = Some ''cosine'' then
              and_then (list_getitem (treatment g) 0) (\<lambda>t0.
                Inr (Some (SparseMatrixSimilarity (treatment g) (length t0))))
            else Inr None) (\<lambda>index.
         for_each (match_step promote index lookUpControl g threshold replacement distance)
           [0..<size] initial_state))"

text \<open>Lines 224 to 236: the five best pairs of \<^verbatim>\<open>sorted_posts\<close> are printed.\<close>

fun print_pairs ::
  "(post, post \<times> real) dict \<Rightarrow> (post \<times> real) list \<Rightarrow> nat \<Rightarrow> py_error + line list" where
  "print_pairs sim [] count' = Inr []"
| "print_pairs sim (x # xs) count' =
     (if count' < 5 then
        (case getitem sim (fst x) of
           Inl e \<Rightarrow> Inl e
         | Inr s \<Rightarrow>
             (case print_pairs sim xs (count' + 1) of
                Inl e \<Rightarrow> Inl e
              | Inr ls \<Rightarrow> Inr (Pair (drop 3 (fst x)) (drop 3 (fst s)) (snd s) # ls)))
      else print_pairs sim xs count')"

text \<open>
  \<^verbatim>\<open>distance_matching(docs, docToPost, upvotes, threshold, replacement, distance = None)\<close>:
  the printed lines and either the exception or the returned pair. \<^verbatim>\<open>distance\<close> is
  \<open>None\<close> for Python's \<^verbatim>\<open>None\<close> and \<open>Some s\<close> for a string.
\<close>

definition distance_matching ::
  "(real \<Rightarrow> real) \<Rightarrow> (doc list \<Rightarrow> nat \<Rightarrow> doc \<Rightarrow> real list) \<Rightarrow>
     (nat list \<Rightarrow> nat \<Rightarrow> nat list) \<Rightarrow>
     doc list \<Rightarrow> (nat, post) dict \<Rightarrow> (post, real) dict \<Rightarrow> real \<Rightarrow> bool \<Rightarrow> string option \<Rightarrow>
     line list \<times> (py_error + post list \<times> post list)" where
  "distance_matching promote SparseMatrixSimilarity sample docs docToPost upvotes threshold
       replacement distance =
     (case split_groups docs docToPost upvotes of
        Inl e \<Rightarrow> ([], Inl e)
      | Inr g \<Rightarrow>
          let out = [Treatment_group (countTreatment g), Control_group (countControl g)]
          in if distance = None then
               (out, Inr (values_of (treatmentToPost g), values_of (controlToPost g)))
             else
               (case matching_run promote SparseMatrixSimilarity sample g threshold replacement
                       distance of
                  Inl e \<Rightarrow> (out, Inl e)
                | Inr st \<Rightarrow>
                    let out' = out @ [Control_unmatched (countUnmatched st), Top5_header]
                    in (case print_pairs (similarity st)
                               (sorted_reverse snd (ranking st)) 0 of
                          Inl e \<Rightarrow> (out', Inl e)
                        | Inr ls \<Rightarrow>
                            (out' @ ls, Inr (matchedTreament st, matchedControl st)))))"

section \<open>The return rates\<close>

text \<open>Lines 261 to 267: the number of users of a group whose entry is \<^verbatim>\<open>"true"\<close>.\<close>

fun count_returns :: "(post, string) dict \<Rightarrow> post list \<Rightarrow> nat \<Rightarrow> py_error + nat" where
  "count_returns returns [] n = Inr n"
| "count_returns returns (user # users) n =
     (case getitem returns user of
        Inl e \<Rightarrow> Inl e
      | Inr r \<Rightarrow> count_returns returns users (if r = ''true'' then n + 1 else n))"

text \<open>Python's \<^verbatim>\<open>/\<close> on floats raises \<^verbatim>\<open>ZeroDivisionError\<close> when the divisor is zero.\<close>

definition py_div :: "real \<Rightarrow> real \<Rightarrow> py_error + real" where
  "py_div a b = (if b = 0 then Inl ZeroDivisionError else Inr (a / b))"

definition return_rate ::
  "post list \<Rightarrow> post list \<Rightarrow> (post, string) dict \<Rightarrow> line list \<times> (py_error + unit)" where
  "return_rate treatment' control' returns =
     (case count_returns returns control' 0 of
        Inl e \<Rightarrow> ([], Inl e)
      | Inr controlReturn \<Rightarrow>
     (case count_returns returns treatment' 0 of
        Inl e \<Rightarrow> ([], Inl e)
      | Inr treatmentReturn \<Rightarrow>
     (case py_div (real treatmentReturn) (real (length treatment')) of
        Inl e \<Rightarrow> ([], Inl e)
      | Inr probTreatmentReturn \<Rightarrow>
     (case py_div (real controlReturn) (real (length control')) of
        Inl e \<Rightarrow> ([], Inl e)
      | Inr probControlReturn \<Rightarrow>
     (case py_div (real (treatmentReturn + controlReturn))
             (real (length treatment' + length control')) of
        Inl e \<Rightarrow> ([], Inl e)
      | Inr bothReturn \<Rightarrow>
          let neitherReturn = 1 - bothReturn;
              out = [Prob_treatment probTreatmentReturn, Prob_control probControlReturn]
          in (case py_div (probTreatmentReturn - probControlReturn) probControlReturn of
                Inl e \<Rightarrow> (out, Inl e)
              | Inr r \<Rightarrow> (out @ [Relative_increase r], Inr ())))))))"

section \<open>Notions used to state the properties\<close>

text \<open>
  Unit \<open>x\<close> of the population is position \<open>x\<close> of \<^verbatim>\<open>docs\<close>; its identifier is
  \<^verbatim>\<open>docToPost[x]\<close> and its feedback scalar is \<^verbatim>\<open>upvotes[docToPost[x]]\<close>.
  \<open>stores_cover\<close> says that both subscripts find their key for every unit listed,
  \<open>no_negative_feedback\<close> that the feedback scalars are counts of upvotes.
\<close>

definition unit_post :: "(nat, post) dict \<Rightarrow> nat \<Rightarrow> post" where
  "unit_post docToPost x = the (map_of docToPost x)"

definition feedback :: "(nat, post) dict \<Rightarrow> (post, real) dict \<Rightarrow> nat \<Rightarrow> real" where
  "feedback docToPost upvotes x = the (map_of upvotes (unit_post docToPost x))"

definition stores_cover :: "(nat, post) dict \<Rightarrow> (post, real) dict \<Rightarrow> nat list \<Rightarrow> bool" where
  "stores_cover docToPost upvotes xs =
     list_all (\<lambda>x. case map_of docToPost x of None \<Rightarrow> False
                   | Some p \<Rightarrow> map_of upvotes p \<noteq> None) xs"

definition no_negative_feedback ::
  "(nat, post) dict \<Rightarrow> (post, real) dict \<Rightarrow> nat list \<Rightarrow> bool" where
  "no_negative_feedback docToPost upvotes xs =
     list_all (\<lambda>x. 0 \<le> feedback docToPost upvotes x) xs"

text \<open>
  What the split loop adds to the groups \<open>g\<close> when it runs over the units \<open>xs\<close> and
  ends with \<open>g'\<close>: the units with feedback 0 join the control group, all others the
  treatment group, both in the order of \<open>xs\<close>.
\<close>

definition split_adds ::
  "doc list \<Rightarrow> (nat, post) dict \<Rightarrow> (post, real) dict \<Rightarrow> nat list \<Rightarrow> groups \<Rightarrow> groups \<Rightarrow> bool" where
  "split_adds docs docToPost upvotes xs g g' =
     (let cs = filter (\<lambda>x. feedback docToPost upvotes x = 0) xs;
          ts = filter (\<lambda>x. feedback docToPost upvotes x \<noteq> 0) xs
      in control g' = control g @ map ((!) docs) cs \<and>
         values_of (controlToPost g') = values_of (controlToPost g) @ map (unit_post docToPost) cs \<and>
         map fst (controlToPost g') = [0..<countControl g'] \<and>
         countControl g' = countControl g + length cs \<and>
         treatment g' = treatment g @ map ((!) docs) ts \<and>
         values_of (treatmentToPost g') =
           values_of (treatmentToPost g) @ map (unit_post docToPost) ts \<and>
         map fst (treatmentToPost g') = [0..<countTreatment g'] \<and>
         countTreatment g' = countTreatment g + length ts)"

text \<open>
  The state after the \<^verbatim>\<open>if\<close> branch of lines 211 to 217 has run for control-id \<open>c\<close>,
  treatment-id \<open>t\<close> and score \<open>s\<close>.
\<close>

definition emits ::
  "matching_state \<Rightarrow> post \<Rightarrow> post \<Rightarrow> real \<Rightarrow> matching_state" where
  "emits st c t s =
     st\<lparr>ranking := setitem (ranking st) c s,
        similarity := setitem (similarity st) c (t, s),
        matched := setitem (matched st) t 1,
        similarity_return := setitem (similarity_return st) (count_pairs st) (c, t),
        matchedControl := matchedControl st @ [c],
        matchedTreament := matchedTreament st @ [t],
        count_pairs := count_pairs st + 1\<rparr>"

text \<open>
  \<open>returns_cover\<close> says that \<^verbatim>\<open>returns[user]\<close> finds its key for every user listed;
  \<open>returned\<close> are the users whose entry is \<^verbatim>\<open>"true"\<close>.
\<close>

definition returns_cover :: "(post, string) dict \<Rightarrow> post list \<Rightarrow> bool" where
  "returns_cover returns users = list_all (\<lambda>u. map_of returns u \<noteq> None) users"

definition returned :: "(post, string) dict \<Rightarrow> post list \<Rightarrow> post list" where
  "returned returns users = filter (\<lambda>u. map_of returns u = Some ''true'') users"

section \<open>Concrete inputs\<close>

text \<open>
  The population of the spec's scenario: two control units and two treatment units, with
  an index that answers the four cosines of the scenario, and a processing order that
  keeps the population's order.
\<close>

definition scenario_docs :: "doc list" where
  "scenario_docs = [[(0, 1)], [(0, 2)], [(0, 3)], [(0, 4)]]"

definition scenario_docToPost :: "(nat, post) dict" where
  "scenario_docToPost = [(0, ''t3_C1''), (1, ''t3_C2''), (2, ''t3_T1''), (3, ''t3_T2'')]"

definition scenario_upvotes :: "(post, real) dict" where
  "scenario_upvotes = [(''t3_C1'', 0), (''t3_C2'', 0), (''t3_T1'', 1), (''t3_T2'', 1)]"

definition scenario_index :: "doc list \<Rightarrow> nat \<Rightarrow> doc \<Rightarrow> real list" where
  "scenario_index corpus num_features query =
     (if query = [(0, 1)] then [0.95, 0.10] else [0.90, 0.05])"

definition in_order :: "nat list \<Rightarrow> nat \<Rightarrow> nat list" where
  "in_order population k = take k population"

definition scenario_groups :: groups where
  "scenario_groups =
     \<lparr>treatment = [[(0, 3)], [(0, 4)]], treatmentToPost = [(0, ''t3_T1''), (1, ''t3_T2'')],
      control = [[(0, 1)], [(0, 2)]], controlToPost = [(0, ''t3_C1''), (1, ''t3_C2'')],
      countTreatment = 2, countControl = 2\<rparr>"

text \<open>The state of the scenario's run after its first control unit has been processed.\<close>

definition scenario_claimed :: matching_state where
  "scenario_claimed =
     \<lparr>similarity = [(''t3_C1'', (''t3_T1'', 0.95))],
      similarity_return = [(0, (''t3_C1'', ''t3_T1''))],
      ranking = [(''t3_C1'', 0.95)], matched = [(''t3_T1'', 1)], countUnmatched = 0,
      matchedControl = [''t3_C1''], matchedTreament = [''t3_T1''], count_pairs = 1\<rparr>"

text \<open>
  Two conversions for \<open>promote\<close>. \<open>unrounded\<close> is NumPy 1's: the threshold is compared
  as it is. \<open>binary32_round\<close> is NumPy 2's for a threshold \<open>x\<close> with \<open>1/2 \<le> x < 1\<close>:
  the \<^verbatim>\<open>float32\<close> values of that range are the multiples of \<open>2 ^ 24\<close>-ths, and \<open>x\<close> is
  rounded to the nearest of them, a tie to the even one.
\<close>

definition unrounded :: "real \<Rightarrow> real" where
  "unrounded x = x"

definition round_half_even :: "real \<Rightarrow> int" where
  "round_half_even r =
     (let f = \<lfloor>r\<rfloor>
      in if r - of_int f < 1 / 2 then f
         else if 1 / 2 < r - of_int f then f + 1
         else if even f then f else f + 1)"

definition binary32_round :: "real \<Rightarrow> real" where
  "binary32_round x = of_int (round_half_even (x * 2 ^ 24)) / 2 ^ 24"


text \<open>
  A population with two control units and one treatment unit, all with the same
  covariate vector, and an index that scores every treatment unit 1 for every query.
\<close>

definition crowded_docs :: "doc list" where
  "crowded_docs = [[(0, 1)], [(0, 1)], [(0, 1)]]"

definition crowded_docToPost :: "(nat, post) dict" where
  "crowded_docToPost = [(0, ''t3_C1''), (1, ''t3_C2''), (2, ''t3_T1'')]"

definition crowded_upvotes :: "(post, real) dict" where
  "crowded_upvotes = [(''t3_C1'', 0), (''t3_C2'', 0), (''t3_T1'', 1)]"

definition unit_index :: "doc list \<Rightarrow> nat \<Rightarrow> doc \<Rightarrow> real list" where
  "unit_index corpus num_features query = map (\<lambda>d. 1) corpus"

text \<open>A population of one treatment unit and no control unit.\<close>

definition treated_docs :: "doc list" where
  "treated_docs = [[(0, 1)]]"

definition treated_docToPost :: "(nat, post) dict" where
  "treated_docToPost = [(0, ''t3_T1'')]"

definition treated_upvotes :: "(post, real) dict" where
  "treated_upvotes = [(''t3_T1'', 1)]"

text \<open>The outcomes of the spec's example for \<^verbatim>\<open>return_rate\<close>.\<close>

definition example_returns :: "(post, string) dict" where
  "example_returns = [(''A'', ''true''), (''B'', ''false''), (''C'', ''false''), (''D'', ''false'')]"

section \<open>Basic facts\<close>

lemma and_then_simps [simp]:
  "and_then (Inl e) f = Inl e"
  "and_then (Inr v) f = f v"
  by (simp_all add: and_then_def)

lemma and_then_eq_Inr:
  "and_then m f = Inr b \<longleftrightarrow> (\<exists>a. m = Inr a \<and> f a = Inr b)"
  by (cases m) simp_all

lemma update_fresh: "k \<notin> set (map fst al) \<Longrightarrow> AList.update k v al = al @ [(k, v)]"
  by (induction al) auto

lemma setitem_next: "map fst d = [0..<n] \<Longrightarrow> setitem d n v = d @ [(n, v)]"
  unfolding setitem_def by (rule update_fresh) simp

lemma for_each_invariant:
  assumes "for_each body xs s = Inr s'" and "P s"
    and "\<And>x a b. x \<in> set xs \<Longrightarrow> P a \<Longrightarrow> body x a = Inr b \<Longrightarrow> P b"
  shows "P s'"
  using assms
proof (induction xs arbitrary: s)
  case Nil
  then show ?case by simp
next
  case (Cons x xs)
  from Cons.prems(1) obtain a where a: "body x s = Inr a" and rest: "for_each body xs a = Inr s'"
    by (auto split: sum.splits)
  have "P a" using Cons.prems(3)[of x s a] Cons.prems(2) a by simp
  with rest Cons.prems(3) show ?case by (intro Cons.IH[of a]) auto
qed

section \<open>The group split\<close>

lemma split_step_control:
  assumes "map_of docToPost x = Some p" and "map_of upvotes p = Some 0"
  shows "split_step docs docToPost upvotes x g =
           Inr (g\<lparr>control := control g @ [docs ! x],
                  controlToPost := setitem (controlToPost g) (countControl g) p,
                  countControl := countControl g + 1\<rparr>)"
  using assms by (simp add: split_step_def getitem_def)

lemma split_step_treatment:
  assumes "map_of docToPost x = Some p" and "map_of upvotes p = Some u" and "u \<noteq> 0"
  shows "split_step docs docToPost upvotes x g =
           Inr (g\<lparr>treatment := treatment g @ [docs ! x],
                  treatmentToPost := setitem (treatmentToPost g) (countTreatment g) p,
                  countTreatment := countTreatment g + 1\<rparr>)"
  using assms by (simp add: split_step_def getitem_def)

lemma split_loop:
  assumes "stores_cover docToPost upvotes xs"
    and "map fst (controlToPost g) = [0..<countControl g]"
    and "map fst (treatmentToPost g) = [0..<countTreatment g]"
  shows "\<exists>g'. for_each (split_step docs docToPost upvotes) xs g = Inr g' \<and>
           split_adds docs docToPost upvotes xs g g'"
  using assms
proof (induction xs arbitrary: g)
  case Nil
  then show ?case by (simp add: split_adds_def)
next
  case (Cons x xs)
  from Cons.prems(1) obtain p u where p: "map_of docToPost x = Some p"
    and u: "map_of upvotes p = Some u" and rest: "stores_cover docToPost upvotes xs"
    by (auto simp: stores_cover_def split: option.splits)
  have fb: "feedback docToPost upvotes x = u" and up: "unit_post docToPost x = p"
    using p u by (simp_all add: feedback_def unit_post_def)
  show ?case
  proof (cases "u = 0")
    case True
    let ?g = "g\<lparr>control := control g @ [docs ! x],
                  controlToPost := setitem (controlToPost g) (countControl g) p,
                  countControl := countControl g + 1\<rparr>"
    have step: "split_step docs docToPost upvotes x g = Inr ?g"
      using p u True by (simp add: split_step_control)
    have new: "setitem (controlToPost g) (countControl g) p =
                 controlToPost g @ [(countControl g, p)]"
      using Cons.prems(2) by (rule setitem_next)
    have "map fst (controlToPost ?g) = [0..<countControl ?g]"
      using Cons.prems(2) by (simp add: new)
    moreover have "map fst (treatmentToPost ?g) = [0..<countTreatment ?g]"
      using Cons.prems(3) by simp
    ultimately obtain g' where "for_each (split_step docs docToPost upvotes) xs ?g = Inr g'"
      and "split_adds docs docToPost upvotes xs ?g g'"
      using Cons.IH[OF rest, of ?g] by blast
    then show ?thesis
      using step True fb up by (simp add: new values_of_def split_adds_def Let_def)
  next
    case False
    let ?g = "g\<lparr>treatment := treatment g @ [docs ! x],
                  treatmentToPost := setitem (treatmentToPost g) (countTreatment g) p,
                  countTreatment := countTreatment g + 1\<rparr>"
    have step: "split_step docs docToPost upvotes x g = Inr ?g"
      using p u False by (simp add: split_step_treatment)
    have new: "setitem (treatmentToPost g) (countTreatment g) p =
                 treatmentToPost g @ [(countTreatment g, p)]"
      using Cons.prems(3) by (rule setitem_next)
    have "map fst (treatmentToPost ?g) = [0..<countTreatment ?g]"
      using Cons.prems(3) by (simp add: new)
    moreover have "map fst (controlToPost ?g) = [0..<countControl ?g]"
      using Cons.prems(2) by simp
    ultimately obtain g' where "for_each (split_step docs docToPost upvotes) xs ?g = Inr g'"
      and "split_adds docs docToPost upvotes xs ?g g'"
      using Cons.IH[OF rest, of ?g] by blast
    then show ?thesis
      using step False fb up by (simp add: new values_of_def split_adds_def Let_def)
  qed
qed

lemma split_groups_covered:
  assumes "stores_cover docToPost upvotes [0..<length docs]"
  shows "\<exists>g. split_groups docs docToPost upvotes = Inr g \<and>
           split_adds docs docToPost upvotes [0..<length docs] no_groups g"
  unfolding split_groups_def
  by (rule split_loop[OF assms]) (simp_all add: no_groups_def)

lemma split_groups_cover:
  assumes "split_groups docs docToPost upvotes = Inr g"
  shows "stores_cover docToPost upvotes [0..<length docs]"
proof -
  have "for_each (split_step docs docToPost upvotes) xs g0 = Inr g1 \<Longrightarrow>
          stores_cover docToPost upvotes xs" for xs g0 g1
  proof (induction xs arbitrary: g0)
    case Nil
    then show ?case by (simp add: stores_cover_def)
  next
    case (Cons x xs)
    then show ?case
      by (auto simp: stores_cover_def split_step_def getitem_def and_then_eq_Inr
          split: sum.splits option.splits)
  qed
  with assms show ?thesis unfolding split_groups_def by blast
qed

text \<open>
  Claim C6. For a population whose units have an identifier and a feedback entry, and
  whose feedback scalars are upvote counts (none is negative), the split succeeds and
  places every unit in exactly one group: in the control group if and only if its
  feedback equals 0, in the treatment group if and only if its feedback is greater than
  0. The identifiers of the two groups are disjoint, together they are the identifiers
  of the whole population, and the two counts add up to its size.
\<close>

theorem partition_by_feedback:
  assumes "stores_cover docToPost upvotes [0..<length docs]"
    and "no_negative_feedback docToPost upvotes [0..<length docs]"
  shows "\<exists>g. split_groups docs docToPost upvotes = Inr g \<and>
           control g = map ((!) docs)
             (filter (\<lambda>x. feedback docToPost upvotes x = 0) [0..<length docs]) \<and>
           values_of (controlToPost g) = map (unit_post docToPost)
             (filter (\<lambda>x. feedback docToPost upvotes x = 0) [0..<length docs]) \<and>
           treatment g = map ((!) docs)
             (filter (\<lambda>x. 0 < feedback docToPost upvotes x) [0..<length docs]) \<and>
           values_of (treatmentToPost g) = map (unit_post docToPost)
             (filter (\<lambda>x. 0 < feedback docToPost upvotes x) [0..<length docs]) \<and>
           set (values_of (controlToPost g)) \<inter> set (values_of (treatmentToPost g)) = {} \<and>
           set (values_of (controlToPost g)) \<union> set (values_of (treatmentToPost g)) =
             unit_post docToPost ` {0..<length docs} \<and>
           countControl g = length (control g) \<and>
           countTreatment g = length (treatment g) \<and>
           countControl g + countTreatment g = length docs"
proof -
  let ?fb = "feedback docToPost upvotes"
  let ?n = "[0..<length docs]"
  from split_groups_covered[OF assms(1)] obtain g
    where run: "split_groups docs docToPost upvotes = Inr g"
      and adds: "split_adds docs docToPost upvotes ?n no_groups g"
    by blast
  from assms(2) have "\<forall>x \<in> set ?n. 0 \<le> ?fb x"
    by (simp add: no_negative_feedback_def list_all_iff)
  then have pos: "filter (\<lambda>x. ?fb x \<noteq> 0) ?n = filter (\<lambda>x. 0 < ?fb x) ?n"
    by (intro filter_cong) (auto simp: less_le)
  have c: "control g = map ((!) docs) (filter (\<lambda>x. ?fb x = 0) ?n)"
    and cp: "values_of (controlToPost g) = map (unit_post docToPost) (filter (\<lambda>x. ?fb x = 0) ?n)"
    and cc: "countControl g = length (filter (\<lambda>x. ?fb x = 0) ?n)"
    and t: "treatment g = map ((!) docs) (filter (\<lambda>x. ?fb x \<noteq> 0) ?n)"
    and tp: "values_of (treatmentToPost g) = map (unit_post docToPost) (filter (\<lambda>x. ?fb x \<noteq> 0) ?n)"
    and ct: "countTreatment g = length (filter (\<lambda>x. ?fb x \<noteq> 0) ?n)"
    using adds by (simp_all add: split_adds_def Let_def no_groups_def values_of_def)
  have disj: "set (values_of (controlToPost g)) \<inter> set (values_of (treatmentToPost g)) = {}"
  proof (rule ccontr)
    assume "\<not> ?thesis"
    then obtain p where "p \<in> set (values_of (controlToPost g))"
      and "p \<in> set (values_of (treatmentToPost g))" by blast
    then have "\<exists>x. p = unit_post docToPost x \<and> ?fb x = 0"
      and "\<exists>y. p = unit_post docToPost y \<and> ?fb y \<noteq> 0"
      unfolding cp tp by auto
    then show False by (auto simp: feedback_def)
  qed
  have un: "set (values_of (controlToPost g)) \<union> set (values_of (treatmentToPost g)) =
             unit_post docToPost ` {0..<length docs}"
    unfolding cp tp by auto
  have total: "countControl g + countTreatment g = length docs"
    unfolding cc ct using sum_length_filter_compl[of "\<lambda>x. ?fb x = 0" ?n] by simp
  have sizes: "countControl g = length (control g)" "countTreatment g = length (treatment g)"
    using c cc t ct by simp_all
  show ?thesis
    using run c cp t[unfolded pos] tp[unfolded pos] disj un total sizes by simp
qed

text \<open>The scenario's population splits into C1, C2 and T1, T2.\<close>

theorem partition_by_feedback_witness:
  "stores_cover scenario_docToPost scenario_upvotes [0..<length scenario_docs] \<and>
   no_negative_feedback scenario_docToPost scenario_upvotes [0..<length scenario_docs] \<and>
   (\<exists>g. split_groups scenario_docs scenario_docToPost scenario_upvotes = Inr g \<and>
        values_of (controlToPost g) = [''t3_C1'', ''t3_C2''] \<and>
        values_of (treatmentToPost g) = [''t3_T1'', ''t3_T2''] \<and>
        countControl g + countTreatment g = 4)"
proof -
  have len: "[0..<length scenario_docs] = [0, 1, 2, 3]"
    by (simp add: scenario_docs_def upt_conv_Cons)
  have cover: "stores_cover scenario_docToPost scenario_upvotes [0..<length scenario_docs]"
    unfolding len by (simp add: stores_cover_def scenario_docToPost_def scenario_upvotes_def)
  have fb: "feedback scenario_docToPost scenario_upvotes 0 = 0"
    "feedback scenario_docToPost scenario_upvotes 1 = 0"
    "feedback scenario_docToPost scenario_upvotes 2 = 1"
    "feedback scenario_docToPost scenario_upvotes 3 = 1"
    "feedback scenario_docToPost scenario_upvotes (Suc 0) = 0"
    by (simp_all add: feedback_def unit_post_def scenario_docToPost_def scenario_upvotes_def)
  have up: "unit_post scenario_docToPost 0 = ''t3_C1''"
    "unit_post scenario_docToPost 1 = ''t3_C2''"
    "unit_post scenario_docToPost 2 = ''t3_T1''"
    "unit_post scenario_docToPost 3 = ''t3_T2''"
    "unit_post scenario_docToPost (Suc 0) = ''t3_C2''"
    by (simp_all add: unit_post_def scenario_docToPost_def)
  have nonneg: "no_negative_feedback scenario_docToPost scenario_upvotes
      [0..<length scenario_docs]"
    unfolding len by (simp add: no_negative_feedback_def fb)
  have "length scenario_docs = 4"
    by (simp add: scenario_docs_def)
  then show ?thesis
    using partition_by_feedback[OF cover nonneg] cover nonneg unfolding len
    by (auto simp: fb up)
qed

section \<open>The candidate list\<close>

lemma sorted_ties_refined:
  assumes "sorted (map f xs)"
    and "\<And>k. sorted_wrt Q (filter (\<lambda>y. f y = k) xs)"
  shows "sorted_wrt (\<lambda>a b. f a < f b \<or> (f a = f b \<and> Q a b)) xs"
  using assms
proof (induction xs)
  case Nil
  then show ?case by simp
next
  case (Cons x xs)
  have tail: "sorted_wrt Q (filter (\<lambda>y. f y = k) xs)" for k
    using Cons.prems(2)[of k] by (cases "f x = k") simp_all
  have first: "f x < f y \<or> (f x = f y \<and> Q x y)" if y: "y \<in> set xs" for y
  proof (cases "f x = f y")
    case True
    with Cons.prems(2)[of "f x"] y show ?thesis by auto
  next
    case False
    moreover have "f x \<le> f y" using Cons.prems(1) y by simp
    ultimately show ?thesis by simp
  qed
  from Cons.prems(1) have "sorted (map f xs)" by simp
  with Cons.IH tail first show ?case by simp
qed

lemma enumerate_ascending: "sorted_wrt (\<lambda>a b. fst a < fst b) (enumerate n xs)"
proof -
  have "sorted_wrt (<) (map fst (enumerate n xs))" by simp
  then show ?thesis by (simp only: sorted_wrt_map)
qed

lemma sorted_reverse_enumerate:
  "sorted_wrt (\<lambda>a b. snd b < snd a \<or> (snd a = snd b \<and> fst a < fst b))
     (sorted_reverse snd (enumerate n (sims :: 'a::linorder list)))"
proof -
  let ?E = "enumerate n sims"
  let ?L = "sort_key snd (rev ?E)"
  have "sorted_wrt (\<lambda>a b. fst b < fst a) (filter (\<lambda>y. snd y = k) ?L)" for k
  proof -
    have "filter (\<lambda>y. snd y = k) ?L = rev (filter (\<lambda>y. snd y = k) ?E)"
      by (simp add: sort_key_stable rev_filter)
    moreover have "sorted_wrt (\<lambda>a b. fst a < fst b) (filter (\<lambda>y. snd y = k) ?E)"
      by (rule sorted_wrt_filter) (rule enumerate_ascending)
    ultimately show ?thesis by (simp add: sorted_wrt_rev)
  qed
  moreover have "sorted (map snd ?L)" by simp
  ultimately have "sorted_wrt (\<lambda>a b. snd a < snd b \<or> (snd a = snd b \<and> fst b < fst a)) ?L"
    by (rule sorted_ties_refined[rotated])
  then have "sorted_wrt (\<lambda>a b. snd b < snd a \<or> (snd b = snd a \<and> fst a < fst b)) (rev ?L)"
    by (simp add: sorted_wrt_rev)
  then show ?thesis
    unfolding sorted_reverse_def by (rule sorted_wrt_mono_rel[rotated]) auto
qed

lemma mset_sorted_reverse: "mset (sorted_reverse key xs) = mset xs"
  by (simp add: sorted_reverse_def)

text \<open>
  Claim C7. The candidate list \<^verbatim>\<open>closer\<close> computed for a control unit is sorted by
  similarity score descending, candidates with equal scores are in ascending order of
  their treatment index, and the list holds every treatment index with its score once.
\<close>

theorem closer_sorted_stable:
  "sorted_wrt (\<lambda>a b. snd b < snd a \<or> (snd a = snd b \<and> fst a < fst b)) (closer_of sims) \<and>
   mset (closer_of sims) = mset (zip [0..<length sims] sims)"
  using sorted_reverse_enumerate[of 0 sims]
  by (simp add: closer_of_def mset_sorted_reverse enumerate_eq_zip)

section \<open>The matching loop\<close>

lemma list_getitem_Inr: "list_getitem xs i = Inr a \<longleftrightarrow> i < length xs \<and> a = xs ! i"
  by (auto simp: list_getitem_def)

lemma getitem_Inr: "getitem d k = Inr v \<longleftrightarrow> map_of d k = Some v"
  by (simp add: getitem_def split: option.splits)

lemma read_local_Inr: "read_local v = Inr a \<longleftrightarrow> v = Some a"
  by (simp add: read_local_def split: option.splits)

lemma keys_setitem: "set (map fst (setitem d k v)) = insert k (set (map fst d))"
  using AList.dom_update[of k v d] by (simp add: setitem_def)

lemma set_setitem: "set (setitem d k v) \<subseteq> insert (k, v) (set d)"
  unfolding setitem_def by (induction d) auto

lemma distinct_values_setitem:
  assumes "distinct (map (\<lambda>e. f (snd e)) d)" and "f v \<notin> set (map (\<lambda>e. f (snd e)) d)"
  shows "distinct (map (\<lambda>e. f (snd e)) (setitem d k v)) \<and>
         set (map (\<lambda>e. f (snd e)) (setitem d k v)) \<subseteq>
           insert (f v) (set (map (\<lambda>e. f (snd e)) d))"
  using assms unfolding setitem_def by (induction d) auto

text \<open>The scan stops at a candidate whose treatment-id is not claimed.\<close>

lemma scan_claimed_stops:
  "scan_claimed closer g st y0 = Inr y \<Longrightarrow>
     y0 \<le> y \<and> y < length closer \<and>
     (\<exists>t. map_of (treatmentToPost g) (fst (closer ! y)) = Some t \<and> \<not> contains t (matched st)) \<and>
     (\<forall>j. y0 \<le> j \<and> j < y \<longrightarrow>
        (\<exists>t. map_of (treatmentToPost g) (fst (closer ! j)) = Some t \<and> contains t (matched st)))"
proof (induction closer g st y0 rule: scan_claimed.induct)
  case (1 closer g st y0)
  from "1.prems" have in_range: "y0 < length closer"
    by (subst (asm) scan_claimed.simps) (simp split: if_splits)
  with "1.prems" obtain t where t: "getitem (treatmentToPost g) (fst (closer ! y0)) = Inr t"
    by (subst (asm) scan_claimed.simps) (auto split: sum.splits)
  show ?case
  proof (cases "contains t (matched st)")
    case True
    with "1.prems" in_range t have "scan_claimed closer g st (y0 + 1) = Inr y"
      by (subst (asm) scan_claimed.simps) simp
    with "1.IH"[of t] in_range t True
    have ih: "y0 + 1 \<le> y \<and> y < length closer \<and>
       (\<exists>t. map_of (treatmentToPost g) (fst (closer ! y)) = Some t \<and> \<not> contains t (matched st)) \<and>
       (\<forall>j. y0 + 1 \<le> j \<and> j < y \<longrightarrow>
          (\<exists>t. map_of (treatmentToPost g) (fst (closer ! j)) = Some t \<and> contains t (matched st)))"
      by simp
    have "\<exists>t. map_of (treatmentToPost g) (fst (closer ! j)) = Some t \<and> contains t (matched st)"
      if "y0 \<le> j" "j < y" for j
    proof (cases "j = y0")
      case True
      with t \<open>contains t (matched st)\<close> show ?thesis by (auto simp: getitem_Inr)
    next
      case False
      with that ih show ?thesis by simp
    qed
    with ih show ?thesis by simp
  next
    case False
    with "1.prems" in_range t have "y = y0"
      by (subst (asm) scan_claimed.simps) simp
    with in_range t False show ?thesis by (auto simp: getitem_Inr)
  qed
qed

text \<open>
  What one iteration of the matching loop does when it does not raise: it either emits
  one match or counts one unmatched control unit.
\<close>

lemma match_step_outcome:
  assumes "match_step promote index lookUpControl g threshold replacement distance x st = Inr st'"
  shows "\<exists>ix closer y.
           distance = Some ''cosine'' \<and> index = Some ix \<and> x < length lookUpControl \<and>
           lookUpControl ! x < length (control g) \<and>
           closer = closer_of (ix (control g ! (lookUpControl ! x))) \<and>
           (if replacement then y = 0 else scan_claimed closer g st 0 = Inr y) \<and>
           y < length closer \<and>
           (if promote threshold \<le> snd (closer ! y) then
              (\<exists>c t. map_of (controlToPost g) (lookUpControl ! x) = Some c \<and>
                     map_of (treatmentToPost g) (fst (closer ! y)) = Some t \<and>
                     st' = emits st c t (snd (closer ! y)))
            else st' = st\<lparr>countUnmatched := countUnmatched st + 1\<rparr>)"
proof (cases "distance = Some ''cosine''")
  case False
  with assms show ?thesis
    by (simp add: match_step_def read_local_def split: if_splits)
next
  case True
  with assms obtain ix where ix: "index = Some ix"
    by (cases index) (simp_all add: match_step_def read_local_def)
  from assms True ix have x: "x < length lookUpControl"
    by (simp add: match_step_def read_local_def list_getitem_def split: if_splits)
  from assms True ix x have i: "lookUpControl ! x < length (control g)"
    by (simp add: match_step_def read_local_def list_getitem_def split: if_splits)
  let ?closer = "closer_of (ix (control g ! (lookUpControl ! x)))"
  from assms True ix x i obtain y where
    y: "if replacement then y = 0 else scan_claimed ?closer g st 0 = Inr y"
    and rest: "and_then (list_getitem ?closer y) (\<lambda>cy.
       if snd cy \<ge> promote threshold then
         and_then (getitem (controlToPost g) (lookUpControl ! x)) (\<lambda>c.
         and_then (getitem (treatmentToPost g) (fst cy)) (\<lambda>t.
           Inr (emits st c t (snd cy))))
       else Inr (st\<lparr>countUnmatched := countUnmatched st + 1\<rparr>)) = Inr st'"
    by (auto simp: match_step_def read_local_def list_getitem_def emits_def and_then_eq_Inr
        split: if_splits)
  from rest have len: "y < length ?closer"
    by (auto simp: and_then_eq_Inr list_getitem_Inr)
  with rest have "if promote threshold \<le> snd (?closer ! y) then
              (\<exists>c t. map_of (controlToPost g) (lookUpControl ! x) = Some c \<and>
                     map_of (treatmentToPost g) (fst (?closer ! y)) = Some t \<and>
                     st' = emits st c t (snd (?closer ! y)))
            else st' = st\<lparr>countUnmatched := countUnmatched st + 1\<rparr>"
    by (auto simp: and_then_eq_Inr list_getitem_def getitem_Inr split: if_splits)
  with True ix x i y len show ?thesis by blast
qed

section \<open>The scenario of the spec\<close>

lemma promoted_threshold:
  "unrounded 0.9 = 0.9" "binary32_round 0.9 = 7549747 / 8388608"
  by (simp_all add: unrounded_def binary32_round_def round_half_even_def)

lemma scenario_split:
  "split_groups scenario_docs scenario_docToPost scenario_upvotes = Inr scenario_groups"
  by (simp add: split_groups_def split_step_def getitem_def setitem_def no_groups_def
      scenario_docs_def scenario_docToPost_def scenario_upvotes_def scenario_groups_def
      upt_conv_Cons)

lemma scenario_cosines:
  "scenario_index (treatment scenario_groups) 1 (control scenario_groups ! 0) = [0.95, 0.10]"
  "scenario_index (treatment scenario_groups) 1 (control scenario_groups ! 1) = [0.90, 0.05]"
  by (simp_all add: scenario_index_def scenario_groups_def)

lemma scenario_first_step:
  assumes "promote 0.9 \<le> 0.95"
  shows "match_step promote (Some (scenario_index (treatment scenario_groups) 1)) [0, 1]
     scenario_groups 0.9 False (Some ''cosine'') 0 initial_state = Inr scenario_claimed"
  using assms
  by (simp add: match_step_def scenario_groups_def scenario_index_def scenario_claimed_def
      initial_state_def list_getitem_def getitem_def setitem_def read_local_def
      contains_def closer_of_def sorted_reverse_def enumerate_eq_zip upt_conv_Cons)

lemma scenario_second_step:
  assumes "0.05 < promote 0.9"
  shows "match_step promote (Some (scenario_index (treatment scenario_groups) 1)) [0, 1]
     scenario_groups 0.9 False (Some ''cosine'') 1 scenario_claimed =
     Inr (scenario_claimed\<lparr>countUnmatched := 1\<rparr>)"
  using assms
  by (simp add: match_step_def scenario_groups_def scenario_index_def scenario_claimed_def
      list_getitem_def getitem_def setitem_def read_local_def
      contains_def closer_of_def sorted_reverse_def enumerate_eq_zip upt_conv_Cons)

lemma scenario_run_promoted:
  assumes "promote 0.9 \<le> 0.95" and "0.05 < promote 0.9"
  shows "matching_run promote scenario_index in_order scenario_groups 0.9 False
           (Some ''cosine'') = Inr (scenario_claimed\<lparr>countUnmatched := 1\<rparr>)"
proof -
  have len: "length (control scenario_groups) = 2"
    by (simp add: scenario_groups_def)
  have range: "[0..<2] = [0, 1]"
    by (simp add: upt_conv_Cons)
  have order: "in_order [0, 1] 2 = [0, 1]"
    by (simp add: in_order_def)
  have first: "list_getitem (treatment scenario_groups) 0 = Inr [(0, 3)]"
    by (simp add: scenario_groups_def list_getitem_def)
  show ?thesis
    unfolding matching_run_def Let_def len range order first
    using scenario_first_step[of promote, OF assms(1)]
      scenario_second_step[of promote, OF assms(2)] by simp
qed

lemma scenario_run:
  "matching_run unrounded scenario_index in_order scenario_groups 0.9 False
     (Some ''cosine'') = Inr (scenario_claimed\<lparr>countUnmatched := 1\<rparr>)"
  by (rule scenario_run_promoted[of unrounded]) (simp_all add: promoted_threshold)

lemma scenario_run_rounded:
  "matching_run binary32_round scenario_index in_order scenario_groups 0.9 False
     (Some ''cosine'') = Inr (scenario_claimed\<lparr>countUnmatched := 1\<rparr>)"
  by (rule scenario_run_promoted[of binary32_round]) (simp_all add: promoted_threshold)

lemma scenario_call:
  assumes "matching_run promote scenario_index in_order scenario_groups 0.9 False
     (Some ''cosine'') = Inr (scenario_claimed\<lparr>countUnmatched := 1\<rparr>)"
  shows "distance_matching promote scenario_index in_order scenario_docs scenario_docToPost
       scenario_upvotes 0.9 False (Some ''cosine'') =
     ([Treatment_group 2, Control_group 2, Control_unmatched 1, Top5_header,
       Pair ''C1'' ''T1'' 0.95],
      Inr ([''t3_T1''], [''t3_C1'']))"
proof -
  have counts: "countTreatment scenario_groups = 2" "countControl scenario_groups = 2"
    by (simp_all add: scenario_groups_def)
  show ?thesis
    using scenario_split assms
    by (simp add: distance_matching_def counts sorted_reverse_def getitem_def
        scenario_claimed_def)
qed

text \<open>
  Claim C8. In the scenario (cosines 0.95 and 0.10 for C1, 0.90 and 0.05 for C2,
  threshold 0.9, no replacement, C1 processed first) the run emits the single match of
  C1 with T1 at score 0.95 and counts one unmatched control unit: the call prints that
  count and the pair, and returns T1 and C1 as the matched groups. This holds with the
  threshold compared as it is and with the threshold rounded to \<^verbatim>\<open>float32\<close>.
\<close>

theorem scenario_one_match:
  "split_groups scenario_docs scenario_docToPost scenario_upvotes = Inr scenario_groups \<and>
   scenario_index (treatment scenario_groups) 1 (control scenario_groups ! 0) = [0.95, 0.10] \<and>
   scenario_index (treatment scenario_groups) 1 (control scenario_groups ! 1) = [0.90, 0.05] \<and>
   matching_run unrounded scenario_index in_order scenario_groups 0.9 False (Some ''cosine'') =
     Inr \<lparr>similarity = [(''t3_C1'', (''t3_T1'', 0.95))],
          similarity_return = [(0, (''t3_C1'', ''t3_T1''))],
          ranking = [(''t3_C1'', 0.95)], matched = [(''t3_T1'', 1)], countUnmatched = 1,
          matchedControl = [''t3_C1''], matchedTreament = [''t3_T1''], count_pairs = 1\<rparr> \<and>
   distance_matching unrounded scenario_index in_order scenario_docs scenario_docToPost
       scenario_upvotes 0.9 False (Some ''cosine'') =
     ([Treatment_group 2, Control_group 2, Control_unmatched 1, Top5_header,
       Pair ''C1'' ''T1'' 0.95],
      Inr ([''t3_T1''], [''t3_C1''])) \<and>
   matching_run binary32_round scenario_index in_order scenario_groups 0.9 False
       (Some ''cosine'') =
     matching_run unrounded scenario_index in_order scenario_groups 0.9 False
       (Some ''cosine'') \<and>
   distance_matching binary32_round scenario_index in_order scenario_docs scenario_docToPost
       scenario_upvotes 0.9 False (Some ''cosine'') =
     distance_matching unrounded scenario_index in_order scenario_docs scenario_docToPost
       scenario_upvotes 0.9 False (Some ''cosine'')"
proof -
  have run: "matching_run unrounded scenario_index in_order scenario_groups 0.9 False
       (Some ''cosine'') =
     Inr \<lparr>similarity = [(''t3_C1'', (''t3_T1'', 0.95))],
          similarity_return = [(0, (''t3_C1'', ''t3_T1''))],
          ranking = [(''t3_C1'', 0.95)], matched = [(''t3_T1'', 1)], countUnmatched = 1,
          matchedControl = [''t3_C1''], matchedTreament = [''t3_T1''], count_pairs = 1\<rparr>"
    using scenario_run by (simp add: scenario_claimed_def)
  from scenario_split scenario_cosines run scenario_call[OF scenario_run]
    scenario_call[OF scenario_run_rounded] scenario_run scenario_run_rounded
  show ?thesis by simp
qed

section \<open>Invariants of the matching loop\<close>

lemma matching_run_loop:
  assumes "matching_run promote SparseMatrixSimilarity sample g threshold replacement distance = Inr st"
  shows "\<exists>index. for_each
           (match_step promote index (sample [0..<length (control g)] (length (control g))) g
              threshold replacement distance)
           [0..<length (control g)] initial_state = Inr st"
  using assms unfolding matching_run_def Let_def and_then_eq_Inr by blast

text \<open>Without replacement, the claimed set and the matched treatment-ids grow together.\<close>

lemma claims_step:
  assumes step: "match_step promote index lookUpControl g threshold False distance x st = Inr st'"
    and inv: "distinct (matchedTreament st)"
      "set (matchedTreament st) = set (map fst (matched st))"
      "map snd (values_of (similarity_return st)) = matchedTreament st"
      "map fst (similarity_return st) = [0..<count_pairs st]"
      "distinct (map (\<lambda>e. fst (snd e)) (similarity st))"
      "set (map (\<lambda>e. fst (snd e)) (similarity st)) \<subseteq> set (matchedTreament st)"
  shows "distinct (matchedTreament st') \<and>
         set (matchedTreament st') = set (map fst (matched st')) \<and>
         map snd (values_of (similarity_return st')) = matchedTreament st' \<and>
         map fst (similarity_return st') = [0..<count_pairs st'] \<and>
         distinct (map (\<lambda>e. fst (snd e)) (similarity st')) \<and>
         set (map (\<lambda>e. fst (snd e)) (similarity st')) \<subseteq> set (matchedTreament st')"
proof -
  from match_step_outcome[OF step] obtain closer y where
    scan: "scan_claimed closer g st 0 = Inr y"
    and out: "if promote threshold \<le> snd (closer ! y) then
              (\<exists>c t. map_of (controlToPost g) (lookUpControl ! x) = Some c \<and>
                     map_of (treatmentToPost g) (fst (closer ! y)) = Some t \<and>
                     st' = emits st c t (snd (closer ! y)))
            else st' = st\<lparr>countUnmatched := countUnmatched st + 1\<rparr>"
    by auto
  show ?thesis
  proof (cases "promote threshold \<le> snd (closer ! y)")
    case False
    with out inv show ?thesis by simp
  next
    case True
    with out obtain c t where t: "map_of (treatmentToPost g) (fst (closer ! y)) = Some t"
      and st': "st' = emits st c t (snd (closer ! y))" by auto
    from scan_claimed_stops[OF scan] t have "\<not> contains t (matched st)" by auto
    then have fresh: "t \<notin> set (matchedTreament st)"
      using inv(2) by (simp add: contains_def)
    have sr: "setitem (similarity_return st) (count_pairs st) (c, t) =
                similarity_return st @ [(count_pairs st, (c, t))]"
      using inv(4) by (rule setitem_next)
    have keys: "set (map fst (setitem (matched st) t 1)) = insert t (set (map fst (matched st)))"
      by (rule keys_setitem)
    have "fst (t, snd (closer ! y)) \<notin> set (map (\<lambda>e. fst (snd e)) (similarity st))"
      using fresh inv(6) by auto
    from distinct_values_setitem[of fst, OF inv(5) this]
    have sim: "distinct (map (\<lambda>e. fst (snd e))
                 (setitem (similarity st) c (t, snd (closer ! y))))"
      "set (map (\<lambda>e. fst (snd e)) (setitem (similarity st) c (t, snd (closer ! y)))) \<subseteq>
         insert t (set (map (\<lambda>e. fst (snd e)) (similarity st)))"
      by simp_all
    from sim(2) inv(6)
    have "set (map (\<lambda>e. fst (snd e)) (setitem (similarity st) c (t, snd (closer ! y)))) \<subseteq>
         insert t (set (matchedTreament st))"
      by blast
    with keys sim(1) fresh inv(1-4) show ?thesis
      unfolding st' emits_def by (simp add: sr values_of_def)
  qed
qed

lemma claims_run:
  assumes "matching_run promote SparseMatrixSimilarity sample g threshold False distance = Inr st"
  shows "distinct (matchedTreament st) \<and>
         set (matchedTreament st) = set (map fst (matched st)) \<and>
         map snd (values_of (similarity_return st)) = matchedTreament st \<and>
         map fst (similarity_return st) = [0..<count_pairs st] \<and>
         distinct (map (\<lambda>e. fst (snd e)) (similarity st)) \<and>
         set (map (\<lambda>e. fst (snd e)) (similarity st)) \<subseteq> set (matchedTreament st)"
proof -
  from matching_run_loop[OF assms] obtain index where
    loop: "for_each
           (match_step promote index (sample [0..<length (control g)] (length (control g))) g
              threshold False distance)
           [0..<length (control g)] initial_state = Inr st" by blast
  show ?thesis
    by (rule for_each_invariant[OF loop])
      (simp add: initial_state_def values_of_def, use claims_step in blast)
qed

text \<open>Every recorded score has passed the test against the converted threshold.\<close>

lemma threshold_step:
  assumes step: "match_step promote index lookUpControl g threshold replacement distance x st = Inr st'"
    and inv: "\<forall>e \<in> set (similarity st). promote threshold \<le> snd (snd e)"
      "\<forall>e \<in> set (ranking st). promote threshold \<le> snd e"
  shows "(\<forall>e \<in> set (similarity st'). promote threshold \<le> snd (snd e)) \<and>
         (\<forall>e \<in> set (ranking st'). promote threshold \<le> snd e)"
proof -
  from match_step_outcome[OF step] obtain closer y where
    out: "if promote threshold \<le> snd (closer ! y) then
              (\<exists>c t. map_of (controlToPost g) (lookUpControl ! x) = Some c \<and>
                     map_of (treatmentToPost g) (fst (closer ! y)) = Some t \<and>
                     st' = emits st c t (snd (closer ! y)))
            else st' = st\<lparr>countUnmatched := countUnmatched st + 1\<rparr>"
    by auto
  show ?thesis
  proof (cases "promote threshold \<le> snd (closer ! y)")
    case False
    with out inv show ?thesis by simp
  next
    case True
    with out obtain c t where st': "st' = emits st c t (snd (closer ! y))" by auto
    have "set (similarity st') \<subseteq> insert (c, (t, snd (closer ! y))) (set (similarity st))"
      and "set (ranking st') \<subseteq> insert (c, snd (closer ! y)) (set (ranking st))"
      unfolding st' emits_def by (simp_all add: set_setitem)
    with True inv show ?thesis by fastforce
  qed
qed

lemma threshold_run:
  assumes "matching_run promote SparseMatrixSimilarity sample g threshold replacement distance = Inr st"
  shows "(\<forall>e \<in> set (similarity st). promote threshold \<le> snd (snd e)) \<and>
         (\<forall>e \<in> set (ranking st). promote threshold \<le> snd e)"
proof -
  from matching_run_loop[OF assms] obtain index where
    loop: "for_each
           (match_step promote index (sample [0..<length (control g)] (length (control g))) g
              threshold replacement distance)
           [0..<length (control g)] initial_state = Inr st" by blast
  show ?thesis
    by (rule for_each_invariant[OF loop])
      (simp add: initial_state_def, use threshold_step in blast)
qed

section \<open>The claims about the matching engine\<close>

lemma scenario_scan:
  "scan_claimed (closer_of [0.90, 0.05]) scenario_groups scenario_claimed 0 = Inr 1"
  by (simp add: scenario_groups_def scenario_claimed_def getitem_def contains_def
      closer_of_def sorted_reverse_def enumerate_eq_zip upt_conv_Cons)

text \<open>
  Claim C1. In a run without replacement that completes, no treatment-id occurs twice
  among the matched treatment-ids, which are the treatment-ids of the emitted pairs and
  the keys of the claimed set, nor twice in the mapping \<^verbatim>\<open>similarity\<close> from control-id
  to treatment-id and score; and the candidate scan of a control unit ends at a candidate
  whose treatment-id is not in the claimed set, having passed only claimed ones.
\<close>

theorem without_replacement_claims_once:
  assumes "matching_run promote SparseMatrixSimilarity sample g threshold False distance = Inr st"
    and "scan_claimed closer g st0 0 = Inr y"
  shows "distinct (matchedTreament st) \<and>
         distinct (map snd (values_of (similarity_return st))) \<and>
         map snd (values_of (similarity_return st)) = matchedTreament st \<and>
         set (matchedTreament st) = set (map fst (matched st)) \<and>
         distinct (map (\<lambda>e. fst (snd e)) (similarity st)) \<and>
         (\<exists>t. map_of (treatmentToPost g) (fst (closer ! y)) = Some t \<and>
              \<not> contains t (matched st0)) \<and>
         (\<forall>j < y. \<exists>t. map_of (treatmentToPost g) (fst (closer ! j)) = Some t \<and>
              contains t (matched st0))"
  using claims_run[OF assms(1)] scan_claimed_stops[OF assms(2)] by simp

theorem without_replacement_claims_once_witness:
  "matching_run unrounded scenario_index in_order scenario_groups 0.9 False (Some ''cosine'') =
     Inr (scenario_claimed\<lparr>countUnmatched := 1\<rparr>) \<and>
   scan_claimed (closer_of [0.90, 0.05]) scenario_groups scenario_claimed 0 = Inr 1 \<and>
   distinct (matchedTreament (scenario_claimed\<lparr>countUnmatched := 1\<rparr>)) \<and>
   map_of (treatmentToPost scenario_groups) (fst (closer_of [0.90, 0.05] ! 1)) = Some ''t3_T2'' \<and>
   \<not> contains ''t3_T2'' (matched scenario_claimed) \<and>
   map_of (treatmentToPost scenario_groups) (fst (closer_of [0.90, 0.05] ! 0)) = Some ''t3_T1'' \<and>
   contains ''t3_T1'' (matched scenario_claimed)"
  using without_replacement_claims_once[OF scenario_run scenario_scan] scenario_run scenario_scan
  by (simp add: scenario_groups_def scenario_claimed_def contains_def
      closer_of_def sorted_reverse_def enumerate_eq_zip upt_conv_Cons)


lemma split_groups_shape:
  assumes "split_groups docs docToPost upvotes = Inr g"
  shows "split_adds docs docToPost upvotes [0..<length docs] no_groups g"
  using split_groups_covered[OF split_groups_cover[OF assms]] assms by auto

lemma control_group_shape:
  assumes "split_groups docs docToPost upvotes = Inr g"
  shows "length (control g) = countControl g"
    and "map fst (controlToPost g) = [0..<countControl g]"
    and "length (treatment g) = countTreatment g"
    and "map fst (treatmentToPost g) = [0..<countTreatment g]"
  using split_groups_shape[OF assms]
  by (simp_all add: split_adds_def Let_def no_groups_def)

lemma values_by_key:
  assumes "map fst d = [0..<n]"
  shows "map (\<lambda>i. the (map_of d i)) [0..<n] = values_of d"
proof -
  have len: "length d = n" using assms by (metis length_map length_upt diff_zero)
  have dist: "distinct (map fst d)" using assms by simp
  show ?thesis
  proof (rule nth_equalityI)
    show "length (map (\<lambda>i. the (map_of d i)) [0..<n]) = length (values_of d)"
      using len by (simp add: values_of_def)
  next
    fix i assume "i < length (map (\<lambda>i. the (map_of d i)) [0..<n])"
    then have i: "i < n" by simp
    with len have "fst (d ! i) = i"
      using assms by (metis nth_map nth_upt add_0)
    moreover have "map_of d (fst (d ! i)) = Some (snd (d ! i))"
      using dist i len by (intro map_of_is_SomeI) (auto simp: in_set_conv_nth)
    ultimately show "map (\<lambda>i. the (map_of d i)) [0..<n] ! i = values_of d ! i"
      using i len by (simp add: values_of_def)
  qed
qed

text \<open>Every iteration that does not raise adds one to exactly one of the two counters.\<close>

lemma counters_loop:
  assumes "for_each (match_step promote index lookUpControl g threshold replacement distance) xs st
             = Inr st'"
  shows "count_pairs st' + countUnmatched st' = count_pairs st + countUnmatched st + length xs \<and>
         length (matchedControl st') - count_pairs st' =
           length (matchedControl st) - count_pairs st \<and>
         count_pairs st' - length (matchedControl st') =
           count_pairs st - length (matchedControl st) \<and>
         length (matchedTreament st') - count_pairs st' =
           length (matchedTreament st) - count_pairs st \<and>
         count_pairs st' - length (matchedTreament st') =
           count_pairs st - length (matchedTreament st) \<and>
         (\<exists>zs. matchedControl st' = matchedControl st @ zs \<and>
               mset zs \<subseteq># mset (map (\<lambda>x. the (map_of (controlToPost g) (lookUpControl ! x))) xs))"
  using assms
proof (induction xs arbitrary: st)
  case Nil
  then show ?case by simp
next
  case (Cons x xs)
  let ?cid = "\<lambda>x. the (map_of (controlToPost g) (lookUpControl ! x))"
  from Cons.prems obtain st1 where
    step: "match_step promote index lookUpControl g threshold replacement distance x st = Inr st1"
    and rest: "for_each (match_step promote index lookUpControl g threshold replacement distance) xs st1
             = Inr st'"
    by (auto split: sum.splits)
  note ih = Cons.IH[OF rest]
  from ih obtain zs where zs: "matchedControl st' = matchedControl st1 @ zs"
    and sub: "mset zs \<subseteq># mset (map ?cid xs)" by blast
  from match_step_outcome[OF step]
  consider (emit) c t s where "map_of (controlToPost g) (lookUpControl ! x) = Some c"
      "st1 = emits st c t s"
    | (skip) "st1 = st\<lparr>countUnmatched := countUnmatched st + 1\<rparr>"
    by (auto split: if_splits)
  then show ?case
  proof cases
    case emit
    then have c: "?cid x = c" by simp
    have "matchedControl st' = matchedControl st @ (c # zs)"
      using zs emit(2) by (simp add: emits_def)
    moreover have "mset (c # zs) \<subseteq># mset (map ?cid (x # xs))"
      using sub c by simp
    ultimately have "\<exists>zs. matchedControl st' = matchedControl st @ zs \<and>
               mset zs \<subseteq># mset (map ?cid (x # xs))" by blast
    with ih emit(2) show ?thesis by (simp add: emits_def)
  next
    case skip
    have "mset (map ?cid xs) \<subseteq># mset (map ?cid (x # xs))"
      by (simp add: subseteq_mset_def)
    with sub have "mset zs \<subseteq># mset (map ?cid (x # xs))"
      by (rule subset_mset.order_trans)
    with zs skip have "\<exists>zs. matchedControl st' = matchedControl st @ zs \<and>
               mset zs \<subseteq># mset (map ?cid (x # xs))" by auto
    with ih skip show ?thesis by simp
  qed
qed

text \<open>
  Claim C10. In a run of the matching mode that completes, the loop body runs once for
  each position of the processing order, and each run adds one to exactly one of
  \<^verbatim>\<open>count_pairs\<close> and \<^verbatim>\<open>countUnmatched\<close>: the number of emitted matches plus the number
  of unmatched control units is the size of the control group. When the processing order
  is a permutation of the control indices, as \<^verbatim>\<open>random.sample\<close> returns it, every
  control-id is matched at most as often as it occurs in the control group.
\<close>

theorem every_control_counted_once:
  assumes "split_groups docs docToPost upvotes = Inr g"
    and "matching_run promote SparseMatrixSimilarity sample g threshold replacement distance = Inr st"
  shows "count_pairs st + countUnmatched st = length (control g) \<and>
         length (values_of (controlToPost g)) = length (control g) \<and>
         countControl g = length (control g) \<and>
         length (matchedControl st) = count_pairs st \<and>
         length (matchedTreament st) = count_pairs st \<and>
         (mset (sample [0..<length (control g)] (length (control g))) =
            mset [0..<length (control g)] \<longrightarrow>
          mset (matchedControl st) \<subseteq># mset (values_of (controlToPost g)))"
proof -
  let ?n = "length (control g)"
  let ?L = "sample [0..<?n] ?n"
  let ?cid = "\<lambda>i. the (map_of (controlToPost g) i)"
  note shape = control_group_shape[OF assms(1)]
  from matching_run_loop[OF assms(2)] obtain index where
    loop: "for_each (match_step promote index ?L g threshold replacement distance) [0..<?n]
             initial_state = Inr st" by blast
  from counters_loop[OF loop] obtain zs where
    counts: "count_pairs st + countUnmatched st = ?n"
      "length (matchedControl st) = count_pairs st"
      "length (matchedTreament st) = count_pairs st"
    and zs: "matchedControl st = zs"
    and sub: "mset zs \<subseteq># mset (map (\<lambda>x. ?cid (?L ! x)) [0..<?n])"
    by (auto simp: initial_state_def)
  have keys: "map fst (controlToPost g) = [0..<?n]"
    using shape by simp
  then have vals: "map ?cid [0..<?n] = values_of (controlToPost g)"
    by (rule values_by_key)
  have len: "length (values_of (controlToPost g)) = ?n"
    using arg_cong[OF vals, of length] by simp
  have "mset (matchedControl st) \<subseteq># mset (values_of (controlToPost g))"
    if perm: "mset ?L = mset [0..<?n]"
  proof -
    from perm have "length ?L = ?n"
      using mset_eq_length by fastforce
    then have "map (\<lambda>x. ?cid (?L ! x)) [0..<?n] = map ?cid ?L"
      by (intro nth_equalityI) simp_all
    then have "mset (map (\<lambda>x. ?cid (?L ! x)) [0..<?n]) = image_mset ?cid (mset ?L)"
      by simp
    also have "\<dots> = mset (map ?cid [0..<?n])"
      unfolding perm by simp
    finally show ?thesis using sub zs vals by simp
  qed
  with counts len shape show ?thesis by simp
qed

theorem every_control_counted_once_witness:
  "split_groups scenario_docs scenario_docToPost scenario_upvotes = Inr scenario_groups \<and>
   matching_run unrounded scenario_index in_order scenario_groups 0.9 False (Some ''cosine'') =
     Inr (scenario_claimed\<lparr>countUnmatched := 1\<rparr>) \<and>
   mset (in_order [0..<length (control scenario_groups)] (length (control scenario_groups))) =
     mset [0..<length (control scenario_groups)] \<and>
   count_pairs (scenario_claimed\<lparr>countUnmatched := 1\<rparr>) +
     countUnmatched (scenario_claimed\<lparr>countUnmatched := 1\<rparr>) = length (control scenario_groups) \<and>
   mset (matchedControl (scenario_claimed\<lparr>countUnmatched := 1\<rparr>)) \<subseteq>#
     mset (values_of (controlToPost scenario_groups))"
proof -
  have perm: "mset (in_order [0..<length (control scenario_groups)]
      (length (control scenario_groups))) = mset [0..<length (control scenario_groups)]"
    by (simp add: in_order_def)
  with every_control_counted_once[OF scenario_split scenario_run] scenario_split scenario_run
  show ?thesis by blast
qed

lemma crowded_call:
  assumes "promote 0.9 \<le> 1"
  shows "distance_matching promote unit_index in_order crowded_docs crowded_docToPost
     crowded_upvotes 0.9 False (Some ''cosine'') =
     ([Treatment_group 1, Control_group 2], Inl IndexError)"
proof -
  let ?g = "\<lparr>treatment = [[(0, 1)]], treatmentToPost = [(0, ''t3_T1'')],
      control = [[(0, 1)], [(0, 1)]], controlToPost = [(0, ''t3_C1''), (1, ''t3_C2'')],
      countTreatment = 1, countControl = 2\<rparr>"
  let ?st = "\<lparr>similarity = [(''t3_C1'', (''t3_T1'', 1))],
      similarity_return = [(0, (''t3_C1'', ''t3_T1''))],
      ranking = [(''t3_C1'', 1)], matched = [(''t3_T1'', 1)], countUnmatched = 0,
      matchedControl = [''t3_C1''], matchedTreament = [''t3_T1''], count_pairs = 1\<rparr>"
  have split: "split_groups crowded_docs crowded_docToPost crowded_upvotes = Inr ?g"
    by (simp add: split_groups_def split_step_def getitem_def setitem_def no_groups_def
        crowded_docs_def crowded_docToPost_def crowded_upvotes_def upt_conv_Cons)
  have first: "match_step promote (Some (unit_index [[(0, 1)]] 1)) [0, 1] ?g 0.9 False
      (Some ''cosine'') 0 initial_state = Inr ?st"
    using assms
    by (simp add: match_step_def unit_index_def initial_state_def list_getitem_def
        getitem_def setitem_def read_local_def contains_def closer_of_def sorted_reverse_def
        enumerate_eq_zip upt_conv_Cons)
  have second: "match_step promote (Some (unit_index [[(0, 1)]] 1)) [0, 1] ?g 0.9 False
      (Some ''cosine'') 1 ?st = Inl IndexError"
    by (simp add: match_step_def unit_index_def list_getitem_def
        getitem_def setitem_def read_local_def contains_def closer_of_def sorted_reverse_def
        enumerate_eq_zip upt_conv_Cons)
  have range: "[0..<2] = [0, 1]"
    by (simp add: upt_conv_Cons)
  have run: "matching_run promote unit_index in_order ?g 0.9 False (Some ''cosine'') =
      Inl IndexError"
    using first second
    by (simp add: matching_run_def Let_def range in_order_def list_getitem_def)
  show ?thesis
    using split run by (simp add: distance_matching_def)
qed

text \<open>
  Claim C2, on the code. Two control units compete for the only treatment unit with
  threshold 0.9 and no replacement: the first claims it, and the scan of the second runs
  past the end of its candidate list, so the call raises \<^verbatim>\<open>IndexError\<close> after printing
  the group sizes instead of counting the second control unit as unmatched. The
  conversion of the threshold makes no difference.
\<close>

theorem exhausted_scan_raises:
  "distance_matching unrounded unit_index in_order crowded_docs crowded_docToPost
     crowded_upvotes 0.9 False (Some ''cosine'') =
     ([Treatment_group 1, Control_group 2], Inl IndexError) \<and>
   distance_matching binary32_round unit_index in_order crowded_docs crowded_docToPost
     crowded_upvotes 0.9 False (Some ''cosine'') =
     ([Treatment_group 1, Control_group 2], Inl IndexError)"
proof -
  have "unrounded 0.9 \<le> 1" and "binary32_round 0.9 \<le> 1"
    by (simp_all add: promoted_threshold)
  then show ?thesis
    by (simp add: crowded_call)
qed

section \<open>The distance modes\<close>

lemma match_step_unbound:
  assumes "distance \<noteq> Some ''cosine''"
  shows "match_step promote index lookUpControl g threshold replacement distance x st =
           Inl UnboundLocalError"
  using assms by (simp add: match_step_def read_local_def)

lemma matching_run_other_distance:
  assumes "distance \<noteq> Some ''cosine''"
  shows "matching_run promote SparseMatrixSimilarity sample g threshold replacement distance =
           (if control g = [] then Inr initial_state else Inl UnboundLocalError)"
proof (cases "control g")
  case Nil
  with assms show ?thesis by (simp add: matching_run_def)
next
  case (Cons c cs)
  then have nonempty: "control g \<noteq> []" and "0 < length (control g)"
    by simp_all
  then have "[0..<length (control g)] = 0 # [Suc 0..<length (control g)]"
    by (simp only: upt_conv_Cons)
  then have "for_each (match_step promote None (sample [0..<length (control g)] (length (control g)))
      g threshold replacement distance) [0..<length (control g)] initial_state =
      Inl UnboundLocalError"
    using assms by (simp add: match_step_unbound)
  with assms nonempty show ?thesis
    by (simp add: matching_run_def Let_def)
qed

text \<open>
  Claim C4, on the code. The code never checks the distance mode. A call with the mode
  \<^verbatim>\<open>"euclidean"\<close> first splits the groups and prints their sizes. On the scenario's
  population it then raises \<^verbatim>\<open>UnboundLocalError\<close> at the first control unit, where it
  reads the candidate list that only the \<^verbatim>\<open>"cosine"\<close> branch assigns; on a population
  without control units it does not fail at all and returns empty matched groups.
\<close>

theorem unsupported_distance_not_rejected:
  "distance_matching unrounded scenario_index in_order scenario_docs scenario_docToPost
     scenario_upvotes 0.9 False (Some ''euclidean'') =
     ([Treatment_group 2, Control_group 2], Inl UnboundLocalError) \<and>
   distance_matching unrounded unit_index in_order treated_docs treated_docToPost
     treated_upvotes 0.9 False (Some ''euclidean'') =
     ([Treatment_group 1, Control_group 0, Control_unmatched 0, Top5_header], Inr ([], []))"
proof -
  have other: "Some ''euclidean'' \<noteq> Some ''cosine''"
    by simp
  have "control scenario_groups \<noteq> []"
    by (simp add: scenario_groups_def)
  then have first: "distance_matching unrounded scenario_index in_order scenario_docs
      scenario_docToPost scenario_upvotes 0.9 False (Some ''euclidean'') =
      ([Treatment_group 2, Control_group 2], Inl UnboundLocalError)"
    by (simp add: distance_matching_def scenario_split matching_run_other_distance[OF other]
        scenario_groups_def)
  have "split_groups treated_docs treated_docToPost treated_upvotes =
      Inr \<lparr>treatment = [[(0, 1)]], treatmentToPost = [(0, ''t3_T1'')], control = [],
           controlToPost = [], countTreatment = 1, countControl = 0\<rparr>"
    by (simp add: split_groups_def split_step_def getitem_def setitem_def no_groups_def
        treated_docs_def treated_docToPost_def treated_upvotes_def)
  then have "distance_matching unrounded unit_index in_order treated_docs treated_docToPost
      treated_upvotes 0.9 False (Some ''euclidean'') =
      ([Treatment_group 1, Control_group 0, Control_unmatched 0, Top5_header], Inr ([], []))"
    by (simp add: distance_matching_def matching_run_other_distance[OF other]
        initial_state_def sorted_reverse_def)
  with first show ?thesis by simp
qed

text \<open>
  Claim C5. In baseline mode (\<^verbatim>\<open>distance = None\<close>) the call returns the identifiers of
  the treatment group and of the control group exactly as the split produced them,
  whatever the index, the processing order, the threshold and the replacement policy are;
  no unit is dropped: the two lists together have the size of the population and hold
  the identifier of each of its units.
\<close>

theorem baseline_pass_through:
  assumes "split_groups docs docToPost upvotes = Inr g"
  shows "distance_matching promote SparseMatrixSimilarity sample docs docToPost upvotes threshold
           replacement None =
           ([Treatment_group (countTreatment g), Control_group (countControl g)],
            Inr (values_of (treatmentToPost g), values_of (controlToPost g))) \<and>
         length (values_of (treatmentToPost g)) + length (values_of (controlToPost g)) =
           length docs \<and>
         set (values_of (treatmentToPost g)) \<union> set (values_of (controlToPost g)) =
           unit_post docToPost ` {0..<length docs}"
proof -
  let ?fb = "feedback docToPost upvotes"
  let ?n = "[0..<length docs]"
  from split_groups_shape[OF assms]
  have cp: "values_of (controlToPost g) = map (unit_post docToPost) (filter (\<lambda>x. ?fb x = 0) ?n)"
    and tp: "values_of (treatmentToPost g) =
               map (unit_post docToPost) (filter (\<lambda>x. ?fb x \<noteq> 0) ?n)"
    by (simp_all add: split_adds_def Let_def no_groups_def values_of_def)
  have "length (values_of (treatmentToPost g)) + length (values_of (controlToPost g)) =
           length docs"
    unfolding cp tp using sum_length_filter_compl[of "\<lambda>x. ?fb x = 0" ?n] by simp
  moreover have "set (values_of (treatmentToPost g)) \<union> set (values_of (controlToPost g)) =
           unit_post docToPost ` {0..<length docs}"
    unfolding cp tp by auto
  ultimately show ?thesis
    using assms by (simp add: distance_matching_def)
qed

theorem baseline_pass_through_witness:
  "split_groups scenario_docs scenario_docToPost scenario_upvotes = Inr scenario_groups \<and>
   distance_matching unrounded scenario_index in_order scenario_docs scenario_docToPost
     scenario_upvotes 0.9 False None =
     ([Treatment_group 2, Control_group 2],
      Inr ([''t3_T1'', ''t3_T2''], [''t3_C1'', ''t3_C2'']))"
  using baseline_pass_through[OF scenario_split, of unrounded scenario_index in_order "0.9" False]
    scenario_split
  by (simp add: scenario_groups_def values_of_def)

section \<open>The return rates\<close>

lemma count_returns_covered:
  assumes "returns_cover returns users"
  shows "count_returns returns users n = Inr (n + length (returned returns users))"
  using assms
proof (induction users arbitrary: n)
  case Nil
  then show ?case by (simp add: returned_def)
next
  case (Cons user users)
  then obtain r where r: "map_of returns user = Some r" and rest: "returns_cover returns users"
    by (auto simp: returns_cover_def)
  from Cons.IH[OF rest] r show ?case
    by (simp add: getitem_def returned_def)
qed

lemma return_rate_covered:
  assumes "returns_cover returns (treatment' @ control')"
  shows "return_rate treatment' control' returns =
     (case py_div (real (length (returned returns treatment'))) (real (length treatment')) of
        Inl e \<Rightarrow> ([], Inl e)
      | Inr probTreatmentReturn \<Rightarrow>
     (case py_div (real (length (returned returns control'))) (real (length control')) of
        Inl e \<Rightarrow> ([], Inl e)
      | Inr probControlReturn \<Rightarrow>
     (case py_div (real (length (returned returns treatment') + length (returned returns control')))
             (real (length treatment' + length control')) of
        Inl e \<Rightarrow> ([], Inl e)
      | Inr bothReturn \<Rightarrow>
          (case py_div (probTreatmentReturn - probControlReturn) probControlReturn of
             Inl e \<Rightarrow> ([Prob_treatment probTreatmentReturn, Prob_control probControlReturn],
                       Inl e)
           | Inr r \<Rightarrow> ([Prob_treatment probTreatmentReturn, Prob_control probControlReturn,
                         Relative_increase r], Inr ())))))"
proof -
  from assms have "returns_cover returns treatment'" and "returns_cover returns control'"
    by (simp_all add: returns_cover_def)
  then have "count_returns returns treatment' 0 = Inr (length (returned returns treatment'))"
    and "count_returns returns control' 0 = Inr (length (returned returns control'))"
    by (simp_all add: count_returns_covered)
  then show ?thesis
    by (simp add: return_rate_def Let_def split: sum.splits)
qed

text \<open>
  Claim C9. When \<^verbatim>\<open>returns\<close> has an entry for every user of both groups:
  \<^verbatim>\<open>return_rate\<close> raises \<^verbatim>\<open>ZeroDivisionError\<close> before it prints anything when either
  group is empty; and when both groups have users but no control user returned, so that
  the control return probability is 0, it prints the two probabilities and raises
  \<^verbatim>\<open>ZeroDivisionError\<close> for the relative increase, which is never printed.
\<close>

theorem return_rate_division_by_zero:
  assumes "returns_cover returns (treatment' @ control')"
  shows "(treatment' = [] \<or> control' = [] \<longrightarrow>
            return_rate treatment' control' returns = ([], Inl ZeroDivisionError)) \<and>
         (treatment' \<noteq> [] \<and> control' \<noteq> [] \<and> returned returns control' = [] \<longrightarrow>
            return_rate treatment' control' returns =
              ([Prob_treatment (real (length (returned returns treatment')) /
                                real (length treatment')),
                Prob_control 0],
               Inl ZeroDivisionError))"
proof (intro conjI impI)
  assume "treatment' = [] \<or> control' = []"
  then show "return_rate treatment' control' returns = ([], Inl ZeroDivisionError)"
    unfolding return_rate_covered[OF assms]
    by (auto simp: py_div_def)
next
  assume both: "treatment' \<noteq> [] \<and> control' \<noteq> [] \<and> returned returns control' = []"
  then have "0 < real (length treatment')" and "0 < real (length control')"
    by simp_all
  then have "real (length treatment') + real (length control') \<noteq> 0"
    by linarith
  with both show "return_rate treatment' control' returns =
              ([Prob_treatment (real (length (returned returns treatment')) /
                                real (length treatment')),
                Prob_control 0],
               Inl ZeroDivisionError)"
    unfolding return_rate_covered[OF assms]
    by (simp add: py_div_def)
qed

theorem return_rate_division_by_zero_witness:
  "returns_cover example_returns ([''A'', ''B''] @ [''C'', ''D'']) \<and>
   returns_cover example_returns ([] @ [''C'', ''D'']) \<and>
   returns_cover example_returns ([''A'', ''B''] @ []) \<and>
   returned example_returns [''C'', ''D''] = [] \<and>
   return_rate [] [''C'', ''D''] example_returns = ([], Inl ZeroDivisionError) \<and>
   return_rate [''A'', ''B''] [] example_returns = ([], Inl ZeroDivisionError) \<and>
   return_rate [''A'', ''B''] [''C'', ''D''] example_returns =
     ([Prob_treatment 0.5, Prob_control 0], Inl ZeroDivisionError)"
proof -
  have cover: "returns_cover example_returns ([''A'', ''B''] @ [''C'', ''D''])"
    "returns_cover example_returns ([] @ [''C'', ''D''])"
    "returns_cover example_returns ([''A'', ''B''] @ [])"
    by (simp_all add: returns_cover_def example_returns_def)
  have none: "returned example_returns [''C'', ''D''] = []"
    and one: "returned example_returns [''A'', ''B''] = [''A'']"
    by (simp_all add: returned_def example_returns_def)
  from return_rate_division_by_zero[OF cover(1)] return_rate_division_by_zero[OF cover(2)]
    return_rate_division_by_zero[OF cover(3)] cover none
  show ?thesis by (simp add: one)
qed

end
